theory Spec2Isabelle
  imports Main
begin

section \<open>The event dispatcher of egret: data model\<close>

text \<open>
  The development embeds \<^verbatim>\<open>src/egret/events/EventDispatcher.ts\<close>.  Names are the
  source's; a leading underscore of the source is written as the prefix \<open>u_\<close>
  (\<^verbatim>\<open>_eventsMap\<close> is \<open>u_eventsMap\<close>).  The fields of a binding keep the names
  \<open>listener\<close>, \<open>thisObject\<close> and \<open>priority\<close>, so the parameters of the same names are
  written \<open>lsn\<close>, \<open>thisObj\<close> and \<open>prio\<close>, and the parameter \<^verbatim>\<open>type\<close> is written \<open>typ\<close>.
  Default arguments are passed explicitly.

  JavaScript values that the dispatcher only stores and compares are references:
  a \<^verbatim>\<open>Function\<close> is the address of a function object (so \<^verbatim>\<open>===\<close> on listeners is
  equality of addresses), \<^verbatim>\<open>thisObject\<close> and \<^verbatim>\<open>data\<close> are opaque values.  A priority is
  an integer, as the documentation of \<^verbatim>\<open>addEventListener\<close> says it is.
\<close>

type_synonym Function = nat
type_synonym any = nat

text \<open>The object literal \<^verbatim>\<open>{listener: listener, thisObject: thisObject, priority: priority}\<close>.\<close>

record eventBin =
  listener :: Function
  thisObject :: any
  priority :: int

text \<open>
  The two open objects \<^verbatim>\<open>_eventsMap\<close> and \<^verbatim>\<open>_captureEventsMap\<close> map a type key to an
  array of bindings: a map holds the own properties of the object.
\<close>

type_synonym eventMap = "string \<rightharpoonup> eventBin list"

text \<open>
  Both objects are created by \<^verbatim>\<open>{}\<close>, so a read \<^verbatim>\<open>eventMap[type]\<close> of a key that is not an
  own property goes on to \<^verbatim>\<open>Object.prototype\<close>.  Its properties are the ones of ECMAScript
  and of its annex on legacy features.  All but \<^verbatim>\<open>__proto__\<close> hold a function; of a function
  the dispatcher reads only the \<^verbatim>\<open>length\<close> (the number of declared parameters).
  \<^verbatim>\<open>__proto__\<close> reads as \<^verbatim>\<open>Object.prototype\<close> itself, which has no \<^verbatim>\<open>length\<close>.  So
  \<open>Object_prototype key\<close> is \<open>None\<close> when the prototype has no such property and
  \<open>Some len\<close> when it has one, \<open>len\<close> being the value of its \<^verbatim>\<open>length\<close>, if any.
\<close>

definition Object_prototype :: "string \<Rightarrow> nat option option" where
  "Object_prototype key =
     (if key = ''toString'' \<or> key = ''toLocaleString'' \<or> key = ''valueOf''
      then Some (Some 0)
      else if key = ''constructor'' \<or> key = ''hasOwnProperty'' \<or> key = ''isPrototypeOf''
              \<or> key = ''propertyIsEnumerable'' \<or> key = ''__lookupGetter__''
              \<or> key = ''__lookupSetter__''
      then Some (Some 1)
      else if key = ''__defineGetter__'' \<or> key = ''__defineSetter__''
      then Some (Some 2)
      else if key = ''__proto__''
      then Some None
      else None)"

text \<open>
  What \<^verbatim>\<open>eventMap[type]\<close> reads: the array of an own property, else what the prototype
  holds under the key, else \<^verbatim>\<open>undefined\<close>.  Only \<^verbatim>\<open>undefined\<close> is falsy: an array is truthy
  even when empty, and so are a function and an object.
\<close>

datatype property = Undefined | Array "eventBin list" | Inherited "nat option"

definition get_property :: "eventMap \<Rightarrow> string \<Rightarrow> property" where
  "get_property eventMap key =
     (case eventMap key of
        Some list \<Rightarrow> Array list
      | None \<Rightarrow> (case Object_prototype key of Some len \<Rightarrow> Inherited len | None \<Rightarrow> Undefined))"

text \<open>
  What a method throws: a \<^verbatim>\<open>ReferenceError\<close> on reading an identifier that nothing
  declares, a \<^verbatim>\<open>TypeError\<close> on reading a property of \<^verbatim>\<open>undefined\<close> or calling what is not
  a function, and whatever a listener throws.
\<close>

datatype error = ReferenceError | TypeError | ListenerError

record EventDispatcher =
  target :: nat
  u_eventsMap :: eventMap
  u_captureEventsMap :: eventMap
  u_isUseCapture :: bool

text \<open>
  The constructor: \<open>this\<close> is the address of the object under construction, the
  argument is the optional delegate (\<^verbatim>\<open>null\<close> is \<open>None\<close>).
\<close>

definition constructor :: "nat \<Rightarrow> nat option \<Rightarrow> EventDispatcher" where
  "constructor this tgt =
     \<lparr> target = (case tgt of Some t \<Rightarrow> t | None \<Rightarrow> this),
       u_eventsMap = Map.empty,
       u_captureEventsMap = Map.empty,
       u_isUseCapture = False \<rparr>"

subsection \<open>Events\<close>

text \<open>
  Modelled from the spec: the class \<^verbatim>\<open>Event\<close> is not among the sources.  The record has
  the fields the dispatcher reads and writes (\<^verbatim>\<open>_type\<close>, \<^verbatim>\<open>_bubbles\<close>, \<^verbatim>\<open>data\<close>, \<^verbatim>\<open>_target\<close>,
  \<^verbatim>\<open>_eventPhase\<close>, \<^verbatim>\<open>_isPropagationImmediateStopped\<close>) and the ones the spec's data
  model adds (current target, propagation-stopped and default-prevented flags).
  Phase \<open>1\<close> is the capture phase.
\<close>

record Event =
  u_type :: string
  u_bubbles :: bool
  data :: "any option"
  u_target :: "nat option"
  currentTarget :: "nat option"
  u_eventPhase :: nat
  propagationStopped :: bool
  u_isPropagationImmediateStopped :: bool
  defaultPrevented :: bool

text \<open>
  Modelled from the spec: \<^verbatim>\<open>Event._reset\<close> is not among the sources; the spec has it
  reset the propagation and default-prevention flags to false.
\<close>

definition u_reset :: "Event \<Rightarrow> Event" where
  "u_reset event =
     event\<lparr> propagationStopped := False,
            u_isPropagationImmediateStopped := False,
            defaultPrevented := False \<rparr>"

text \<open>
  Modelled from the spec: \<^verbatim>\<open>Event._setCurrentTarget\<close> is not among the sources; the
  spec has the dispatcher stamp the current target with it.
\<close>

definition u_setCurrentTarget :: "Event \<Rightarrow> nat \<Rightarrow> Event" where
  "u_setCurrentTarget event t = event\<lparr> currentTarget := Some t \<rparr>"

text \<open>
  Modelled from the spec: \<^verbatim>\<open>Event.isDefaultPrevented\<close> is not among the sources; it
  reads the default-prevented flag.
\<close>

definition isDefaultPrevented :: "Event \<Rightarrow> bool" where
  "isDefaultPrevented event = defaultPrevented event"

section \<open>Registration\<close>

text \<open>
  \<^verbatim>\<open>list.splice(n, 0, x)\<close> and \<^verbatim>\<open>list.splice(n, 1)\<close>, for \<open>n\<close> within the array.
\<close>

definition splice_insert :: "'a list \<Rightarrow> nat \<Rightarrow> 'a \<Rightarrow> 'a list" where
  "splice_insert list n x = take n list @ x # drop n list"

definition splice_delete :: "'a list \<Rightarrow> nat \<Rightarrow> 'a list" where
  "splice_delete list n = take n list @ drop (Suc n) list"

text \<open>
  The loop of \<^verbatim>\<open>addEventListener\<close> (lines 86 to 94), from index \<open>i\<close> on: \<open>None\<close> is the
  early \<^verbatim>\<open>return\<close> on a binding with the same listener, \<open>Some insertIndex\<close> the value of
  \<^verbatim>\<open>insertIndex\<close> when the loop ends (\<open>-1\<close> when it was never set).
\<close>

fun add_scan :: "eventBin list \<Rightarrow> nat \<Rightarrow> Function \<Rightarrow> int \<Rightarrow> int \<Rightarrow> int option" where
  "add_scan [] i lsn prio insertIndex = Some insertIndex"
| "add_scan (bin # rest) i lsn prio insertIndex =
     (if listener bin = lsn then None
      else add_scan rest (Suc i) lsn prio
             (if insertIndex = - 1 \<and> priority bin \<le> prio then int i else insertIndex))"

text \<open>
  Writing the selected map back: the source mutates the object that
  \<^verbatim>\<open>useCapture ? this._captureEventsMap : this._eventsMap\<close> selects.
\<close>

definition select_map :: "EventDispatcher \<Rightarrow> bool \<Rightarrow> eventMap" where
  "select_map this useCapture =
     (if useCapture then u_captureEventsMap this else u_eventsMap this)"

definition store_map :: "EventDispatcher \<Rightarrow> bool \<Rightarrow> eventMap \<Rightarrow> EventDispatcher" where
  "store_map this useCapture m =
     (if useCapture then this\<lparr> u_captureEventsMap := m \<rparr> else this\<lparr> u_eventsMap := m \<rparr>)"

text \<open>
  \<^verbatim>\<open>addEventListener(type, listener, thisObject, useCapture, priority)\<close>.  The debug hook
  of lines 78 to 80 belongs to \<^verbatim>\<open>DEBUG.ts\<close>, which is not among the sources; the model is
  the dispatcher with \<^verbatim>\<open>DEBUG\<close> off.

  The result is what the call throws, if it throws, and the dispatcher as the call
  leaves it.  When \<^verbatim>\<open>eventMap[type]\<close> reads an inherited property, \<^verbatim>\<open>list\<close> is truthy and is
  not an array: with a \<^verbatim>\<open>length\<close> of at least one the loop reads \<^verbatim>\<open>list[0]\<close>, which is
  \<^verbatim>\<open>undefined\<close>, and \<^verbatim>\<open>bin.listener\<close> throws (line 88); otherwise the loop is skipped and
  \<^verbatim>\<open>list.push\<close>, which is \<^verbatim>\<open>undefined\<close>, is called and throws (line 105).  Nothing has been
  written by then.
\<close>

definition addEventListener ::
  "EventDispatcher \<Rightarrow> string \<Rightarrow> Function \<Rightarrow> any \<Rightarrow> bool \<Rightarrow> int
     \<Rightarrow> error option \<times> EventDispatcher" where
  "addEventListener this typ lsn thisObj useCapture prio =
     (let eventMap = select_map this useCapture;
          eventBin = \<lparr> listener = lsn, thisObject = thisObj, priority = prio \<rparr>
      in case get_property eventMap typ of
           Array list \<Rightarrow>
             (case add_scan list 0 lsn prio (- 1) of
                None \<Rightarrow> (None, this)
              | Some insertIndex \<Rightarrow>
                  if insertIndex \<noteq> - 1
                  then (None, store_map this useCapture
                         (eventMap(typ \<mapsto> splice_insert list (nat insertIndex) eventBin)))
                  else (None, store_map this useCapture (eventMap(typ \<mapsto> list @ [eventBin]))))
         | Inherited len \<Rightarrow> (Some TypeError, this)
         | Undefined \<Rightarrow>
             (None, store_map this useCapture (eventMap(typ \<mapsto> [] @ [eventBin]))))"

section \<open>Removal and query\<close>

text \<open>
  The loop of \<^verbatim>\<open>removeEventListener\<close> (lines 124 to 130), from index \<open>i\<close> on: the index
  at which it splices and breaks, or \<open>None\<close> when it runs to the end.
\<close>

fun remove_scan :: "eventBin list \<Rightarrow> nat \<Rightarrow> Function \<Rightarrow> nat option" where
  "remove_scan [] i lsn = None"
| "remove_scan (bin # rest) i lsn =
     (if listener bin = lsn then Some i else remove_scan rest (Suc i) lsn)"

text \<open>
  \<^verbatim>\<open>removeEventListener(type, listener, useCapture)\<close>, with the result of
  \<open>addEventListener\<close>.  When \<^verbatim>\<open>eventMap[type]\<close> reads an inherited property: with a \<^verbatim>\<open>length\<close>
  of at least one the loop reads \<^verbatim>\<open>list[0]\<close>, which is \<^verbatim>\<open>undefined\<close>, and \<^verbatim>\<open>bin.listener\<close>
  throws (line 126); with the \<^verbatim>\<open>length\<close> zero the loop is skipped and line 132 deletes the
  key from the own properties; with no \<^verbatim>\<open>length\<close> neither the loop nor the deletion runs.
\<close>

definition removeEventListener ::
  "EventDispatcher \<Rightarrow> string \<Rightarrow> Function \<Rightarrow> bool \<Rightarrow> error option \<times> EventDispatcher" where
  "removeEventListener this typ lsn useCapture =
     (let eventMap = select_map this useCapture
      in case get_property eventMap typ of
           Undefined \<Rightarrow> (None, this)
         | Inherited len \<Rightarrow>
             (case len of
                Some n \<Rightarrow>
                  if 0 < n then (Some TypeError, this)
                  else (None, store_map this useCapture (eventMap(typ := None)))
              | None \<Rightarrow> (None, this))
         | Array list \<Rightarrow>
             (let list' = (case remove_scan list 0 lsn of
                             Some i \<Rightarrow> splice_delete list i
                           | None \<Rightarrow> list)
              in if length list' = 0
                 then (None, store_map this useCapture (eventMap(typ := None)))
                 else (None, store_map this useCapture (eventMap(typ \<mapsto> list')))))"

text \<open>
  \<^verbatim>\<open>hasEventListener\<close>: the truthiness of
  \<^verbatim>\<open>this._eventsMap[type] || this._captureEventsMap[type]\<close>.
\<close>

definition hasEventListener :: "EventDispatcher \<Rightarrow> string \<Rightarrow> bool" where
  "hasEventListener this typ =
     (case get_property (u_eventsMap this) typ of
        Undefined \<Rightarrow>
          (case get_property (u_captureEventsMap this) typ of
             Undefined \<Rightarrow> False
           | Array list \<Rightarrow> True
           | Inherited len \<Rightarrow> True)
      | Array list \<Rightarrow> True
      | Inherited len \<Rightarrow> True)"

section \<open>Dispatch\<close>

text \<open>
  A listener is run by \<^verbatim>\<open>eventBin.listener.apply(eventBin.thisObject, [event])\<close>.  What a
  function object does is a parameter of the model: given the function, the receiver
  and the event, the event as the call leaves it and whether the call threw.  The
  dispatcher catches nothing, so a throw ends the pass.  Listeners that re-enter the
  dispatcher they are notified by are outside the model.
\<close>

type_synonym listener_call = "Function \<Rightarrow> any \<Rightarrow> Event \<Rightarrow> error option \<times> Event"

text \<open>
  The log of a pass is not program state: it records, for every listener call the pass
  makes, the binding, the event passed and the event as the call left it.
\<close>

type_synonym log = "(eventBin \<times> Event \<times> Event) list"

text \<open>The loop of \<^verbatim>\<open>_notifyListener\<close> (lines 166 to 172).\<close>

fun notify_loop :: "listener_call \<Rightarrow> eventBin list \<Rightarrow> Event \<Rightarrow> error option \<times> Event \<times> log" where
  "notify_loop call [] event = (None, event, [])"
| "notify_loop call (eventBin # rest) event =
     (case call (listener eventBin) (thisObject eventBin) event of
        (Some err, event') \<Rightarrow> (Some err, event', [(eventBin, event, event')])
      | (None, event') \<Rightarrow>
          if u_isPropagationImmediateStopped event'
          then (None, event', [(eventBin, event, event')])
          else (case notify_loop call rest event' of
                  (r, event'', lg) \<Rightarrow> (r, event'', (eventBin, event, event') # lg)))"

text \<open>
  \<^verbatim>\<open>_notifyListener(event)\<close>.  Line 161 reads \<^verbatim>\<open>eventMap[type]\<close>, and \<^verbatim>\<open>type\<close> is neither a
  parameter nor a local of the method: it is a free identifier, resolved outside the
  class.  Its binding is the parameter \<open>ambient_type\<close>: \<open>None\<close> when nothing declares it
  (reading it then throws a \<^verbatim>\<open>ReferenceError\<close>), \<open>Some k\<close> when it is bound to the key \<open>k\<close>.
  The result is what the call returns or throws, the event as the pass leaves it, and
  the log.  When the lookup reads an inherited property with a \<^verbatim>\<open>length\<close> of at least
  one, the loop reads \<^verbatim>\<open>list[0]\<close>, which is \<^verbatim>\<open>undefined\<close>, and \<^verbatim>\<open>eventBin.listener\<close> throws
  (line 168); otherwise the loop is skipped.
\<close>

definition u_notifyListener ::
  "string option \<Rightarrow> listener_call \<Rightarrow> EventDispatcher \<Rightarrow> Event \<Rightarrow> (error + bool) \<times> Event \<times> log" where
  "u_notifyListener ambient_type call this event =
     (let eventMap = (if u_eventPhase event = 1 then u_captureEventsMap this else u_eventsMap this)
      in case ambient_type of
           None \<Rightarrow> (Inl ReferenceError, event, [])
         | Some typ \<Rightarrow>
             (case get_property eventMap typ of
                Undefined \<Rightarrow> (Inr True, event, [])
              | Inherited len \<Rightarrow>
                  (case len of
                     Some n \<Rightarrow>
                       if 0 < n then (Inl TypeError, event, [])
                       else (Inr (\<not> isDefaultPrevented event), event, [])
                   | None \<Rightarrow> (Inr (\<not> isDefaultPrevented event), event, []))
              | Array list \<Rightarrow>
                  (case notify_loop call list event of
                     (Some err, event', lg) \<Rightarrow> (Inl err, event', lg)
                   | (None, event', lg) \<Rightarrow> (Inr (\<not> isDefaultPrevented event'), event', lg))))"

text \<open>\<^verbatim>\<open>dispatchEvent(event)\<close>, lines 152 to 157.\<close>

definition dispatchEvent ::
  "string option \<Rightarrow> listener_call \<Rightarrow> EventDispatcher \<Rightarrow> Event \<Rightarrow> (error + bool) \<times> Event \<times> log" where
  "dispatchEvent ambient_type call this event =
     (let event = u_reset event;
          event = event\<lparr> u_target := Some (target this) \<rparr>;
          event = u_setCurrentTarget event (target this)
      in u_notifyListener ambient_type call this event)"

text \<open>
  \<^verbatim>\<open>dispatchEventWith(type, bubbles, data)\<close>.  The static \<^verbatim>\<open>reuseEvent\<close> is one object
  shared by every dispatcher; its state is passed in and the state the call leaves it
  in is returned.  The method is \<^verbatim>\<open>void\<close>: of the dispatch, only a throw reaches the
  caller.
\<close>

definition dispatchEventWith ::
  "string option \<Rightarrow> listener_call \<Rightarrow> EventDispatcher \<Rightarrow> Event \<Rightarrow> string \<Rightarrow> bool \<Rightarrow> any option
     \<Rightarrow> error option \<times> Event \<times> log" where
  "dispatchEventWith ambient_type call this reuseEvent typ bubbles dat =
     (let event = reuseEvent;
          event = event\<lparr> u_type := typ \<rparr>;
          event = event\<lparr> u_bubbles := bubbles \<rparr>;
          event = event\<lparr> data := dat \<rparr>
      in case dispatchEvent ambient_type call this event of
           (Inl err, event', lg) \<Rightarrow> (Some err, event', lg)
         | (Inr b, event', lg) \<Rightarrow> (None, event', lg))"

section \<open>Specification vocabulary\<close>

text \<open>
  The bucket of a type key in the map that \<open>useCapture\<close> selects, as a sequence: empty
  when the key is not an own property of the map.
\<close>

definition bucket :: "EventDispatcher \<Rightarrow> bool \<Rightarrow> string \<Rightarrow> eventBin list" where
  "bucket this useCapture typ =
     (case select_map this useCapture typ of None \<Rightarrow> [] | Some list \<Rightarrow> list)"

text \<open>
  A binding put in front of the first binding whose priority is at most its own, at
  the end when there is none.
\<close>

definition insert_bin :: "eventBin list \<Rightarrow> eventBin \<Rightarrow> eventBin list" where
  "insert_bin list bin =
     takeWhile (\<lambda>b. \<not> priority b \<le> priority bin) list @
     bin # dropWhile (\<lambda>b. \<not> priority b \<le> priority bin) list"

text \<open>A sequence of bindings without the first binding of a listener.\<close>

definition remove_bin :: "eventBin list \<Rightarrow> Function \<Rightarrow> eventBin list" where
  "remove_bin list lsn =
     takeWhile (\<lambda>b. listener b \<noteq> lsn) list @ drop 1 (dropWhile (\<lambda>b. listener b \<noteq> lsn) list)"

text \<open>
  The invariant of the two maps: a bucket that is an own property is not empty and
  holds no listener twice.  It holds of a new dispatcher and both \<open>addEventListener\<close> and
  \<open>removeEventListener\<close> keep it.
\<close>

definition bucket_ok :: "eventBin list \<Rightarrow> bool" where
  "bucket_ok list = (list \<noteq> [] \<and> distinct (map listener list))"

definition map_ok :: "eventMap \<Rightarrow> bool" where
  "map_ok m = (\<forall>typ list. m typ = Some list \<longrightarrow> bucket_ok list)"

definition dispatcher_ok :: "EventDispatcher \<Rightarrow> bool" where
  "dispatcher_ok this = (map_ok (u_eventsMap this) \<and> map_ok (u_captureEventsMap this))"

text \<open>Bindings in non-increasing order of priority.\<close>

definition descending :: "eventBin list \<Rightarrow> bool" where
  "descending list = sorted_wrt (\<lambda>a b. priority b \<le> priority a) list"

section \<open>Concrete listeners and events\<close>

text \<open>
  Four kinds of function object: the one at address 1 calls \<^verbatim>\<open>preventDefault\<close>, the one
  at 2 calls \<^verbatim>\<open>stopImmediatePropagation\<close>, the one at 3 throws, every other one returns
  without touching the event.
\<close>

definition sample_call :: listener_call where
  "sample_call f th event =
     (if f = 1 then (None, event\<lparr> defaultPrevented := True \<rparr>)
      else if f = 2 then (None, event\<lparr> u_isPropagationImmediateStopped := True \<rparr>)
      else if f = 3 then (Some ListenerError, event)
      else (None, event))"

text \<open>An event of a given type and phase that no dispatcher has seen yet.\<close>

definition sample_event :: "string \<Rightarrow> nat \<Rightarrow> Event" where
  "sample_event typ phase =
     \<lparr> u_type = typ, u_bubbles = False, data = None, u_target = None, currentTarget = None,
       u_eventPhase = phase, propagationStopped = False,
       u_isPropagationImmediateStopped = False, defaultPrevented = False \<rparr>"

text \<open>
  A dispatcher with three listeners for \<open>x\<close> in the target and bubble map, of priorities
  3, 2 and 1: the first prevents the default, the second stops the propagation at
  once, the third does nothing.
\<close>

definition three_listeners :: EventDispatcher where
  "three_listeners =
     snd (addEventListener (snd (addEventListener (snd (addEventListener (constructor 0 None)
       ''x'' 1 7 False 3)) ''x'' 2 7 False 2)) ''x'' 4 7 False 1)"

text \<open>
  A dispatcher with a silent listener for \<open>x\<close> in the target and bubble map and a
  default-preventing one for \<open>x\<close> in the capture map.
\<close>

definition capture_only :: EventDispatcher where
  "capture_only =
     snd (addEventListener (snd (addEventListener (constructor 0 None) ''x'' 4 7 False 0)) ''x'' 1 7 True 0)"

section \<open>Lemmas on registration and removal\<close>

lemma add_scan_dup: "lsn \<in> listener ` set list \<Longrightarrow> add_scan list i lsn prio ix = None"
  by (induction list arbitrary: i ix) auto

lemma add_scan_set:
  "ix \<noteq> - 1 \<Longrightarrow> lsn \<notin> listener ` set list \<Longrightarrow> add_scan list i lsn prio ix = Some ix"
  by (induction list arbitrary: i) auto

lemma add_scan_fresh:
  "lsn \<notin> listener ` set list \<Longrightarrow>
   add_scan list i lsn prio (- 1) =
     Some (if list_ex (\<lambda>b. priority b \<le> prio) list
           then int (i + length (takeWhile (\<lambda>b. \<not> priority b \<le> prio) list))
           else - 1)"
proof (induction list arbitrary: i)
  case Nil
  then show ?case by simp
next
  case (Cons bin rest)
  then have fresh: "lsn \<notin> listener ` set rest" and neq: "listener bin \<noteq> lsn"
    by auto
  show ?case
  proof (cases "priority bin \<le> prio")
    case True
    then show ?thesis using neq fresh by (simp add: add_scan_set)
  next
    case False
    then show ?thesis using neq Cons.IH [OF fresh] by simp
  qed
qed

lemma splice_insert_takeWhile:
  "splice_insert list (length (takeWhile P list)) x = takeWhile P list @ x # dropWhile P list"
  by (simp add: splice_insert_def takeWhile_eq_take [symmetric] dropWhile_eq_drop [symmetric])

lemma insert_bin_append:
  "\<not> list_ex (\<lambda>b. priority b \<le> priority bin) list \<Longrightarrow> insert_bin list bin = list @ [bin]"
  by (simp add: insert_bin_def list_ex_iff)

lemma remove_scan_index:
  "remove_scan list i lsn =
     (if lsn \<in> listener ` set list
      then Some (i + length (takeWhile (\<lambda>b. listener b \<noteq> lsn) list))
      else None)"
  by (induction list arbitrary: i) auto

lemma splice_delete_takeWhile:
  "splice_delete list (length (takeWhile P list)) = takeWhile P list @ drop 1 (dropWhile P list)"
  by (simp add: splice_delete_def takeWhile_eq_take [symmetric] dropWhile_eq_drop drop_Suc drop_tl)

lemma remove_bin_absent: "lsn \<notin> listener ` set list \<Longrightarrow> remove_bin list lsn = list"
proof -
  assume "lsn \<notin> listener ` set list"
  then have all: "\<forall>b\<in>set list. listener b \<noteq> lsn" by auto
  then have keep: "takeWhile (\<lambda>b. listener b \<noteq> lsn) list = list"
    by (simp add: takeWhile_eq_all_conv)
  from all have none: "dropWhile (\<lambda>b. listener b \<noteq> lsn) list = []"
    by (simp add: dropWhile_eq_Nil_conv)
  show ?thesis by (simp add: remove_bin_def keep none)
qed

lemma splice_delete_remove_bin:
  "splice_delete list (length (takeWhile (\<lambda>b. listener b \<noteq> lsn) list)) = remove_bin list lsn"
  by (simp add: splice_delete_takeWhile remove_bin_def)

lemma select_store [simp]: "select_map (store_map this uc m) uc = m"
  by (simp add: select_map_def store_map_def)

lemma select_store_other [simp]: "select_map (store_map this uc m) (\<not> uc) = select_map this (\<not> uc)"
  by (simp add: select_map_def store_map_def)

lemma store_select [simp]: "store_map this uc (select_map this uc) = this"
  by (simp add: select_map_def store_map_def)

lemma get_property_own: "eventMap key = Some list \<Longrightarrow> get_property eventMap key = Array list"
  by (simp add: get_property_def)

lemma get_property_absent:
  "eventMap key = None \<Longrightarrow>
   get_property eventMap key =
     (case Object_prototype key of Some len \<Rightarrow> Inherited len | None \<Rightarrow> Undefined)"
  by (simp add: get_property_def)

lemma store_delete_absent:
  "select_map this uc typ = None \<Longrightarrow> store_map this uc ((select_map this uc)(typ := None)) = this"
proof -
  assume "select_map this uc typ = None"
  then have "(select_map this uc)(typ := None) = select_map this uc" by (rule fun_upd_idem)
  then show ?thesis by simp
qed

lemma addEventListener_returns:
  "fst (addEventListener this typ lsn thisObj uc prio) =
     (if select_map this uc typ = None \<and> Object_prototype typ \<noteq> None then Some TypeError
      else None)"
  by (cases "select_map this uc typ"; cases "Object_prototype typ")
    (auto simp: addEventListener_def Let_def get_property_def split: option.splits)

lemma removeEventListener_returns:
  "Object_prototype typ = None \<Longrightarrow> fst (removeEventListener this typ lsn uc) = None"
  by (cases "select_map this uc typ")
    (auto simp: removeEventListener_def Let_def get_property_def split: option.splits)

lemma addEventListener_eq:
  "snd (addEventListener this typ lsn thisObj uc prio) =
     (case select_map this uc typ of
        None \<Rightarrow>
          if Object_prototype typ = None
          then store_map this uc ((select_map this uc)(typ \<mapsto> [\<lparr>listener = lsn, thisObject = thisObj, priority = prio\<rparr>]))
          else this
      | Some list \<Rightarrow>
          if lsn \<in> listener ` set list then this
          else store_map this uc ((select_map this uc)(typ \<mapsto>
                 insert_bin list \<lparr>listener = lsn, thisObject = thisObj, priority = prio\<rparr>)))"
proof (cases "select_map this uc typ")
  case None
  then show ?thesis
    by (cases "Object_prototype typ") (simp_all add: addEventListener_def get_property_absent)
next
  case (Some list)
  note own = get_property_own [of "select_map this uc" "typ" list, OF Some]
  show ?thesis
  proof (cases "lsn \<in> listener ` set list")
    case True
    then show ?thesis using Some own by (simp add: addEventListener_def add_scan_dup)
  next
    case False
    show ?thesis
    proof (cases "list_ex (\<lambda>b. priority b \<le> prio) list")
      case True
      then show ?thesis using Some own False
        by (simp add: addEventListener_def add_scan_fresh splice_insert_takeWhile insert_bin_def)
    next
      case no: False
      then show ?thesis using Some own False
        by (simp add: addEventListener_def add_scan_fresh insert_bin_append)
    qed
  qed
qed

lemma removeEventListener_eq:
  "snd (removeEventListener this typ lsn uc) =
     (case select_map this uc typ of
        None \<Rightarrow> this
      | Some list \<Rightarrow>
          if remove_bin list lsn = []
          then store_map this uc ((select_map this uc)(typ := None))
          else store_map this uc ((select_map this uc)(typ \<mapsto> remove_bin list lsn)))"
proof (cases "select_map this uc typ")
  case None
  then show ?thesis
    by (auto simp: removeEventListener_def get_property_absent store_delete_absent
        split: option.splits)
next
  case (Some list)
  note own = get_property_own [of "select_map this uc" "typ" list, OF Some]
  show ?thesis
  proof (cases "lsn \<in> listener ` set list")
    case True
    then show ?thesis using Some own
      by (simp add: removeEventListener_def remove_scan_index splice_delete_remove_bin Let_def)
  next
    case False
    then show ?thesis using Some own
      by (simp add: removeEventListener_def remove_scan_index remove_bin_absent Let_def)
  qed
qed

lemma dispatcher_ok_select: "dispatcher_ok this \<Longrightarrow> map_ok (select_map this uc)"
  by (simp add: dispatcher_ok_def select_map_def)

lemma dispatcher_ok_store:
  "dispatcher_ok this \<Longrightarrow> map_ok m \<Longrightarrow> dispatcher_ok (store_map this uc m)"
  by (simp add: dispatcher_ok_def store_map_def)

lemma map_ok_upd: "map_ok m \<Longrightarrow> bucket_ok list \<Longrightarrow> map_ok (m(typ \<mapsto> list))"
  by (simp add: map_ok_def)

lemma map_ok_del: "map_ok m \<Longrightarrow> map_ok (m(typ := None))"
  by (simp add: map_ok_def)

lemma constructor_ok: "dispatcher_ok (constructor this tgt)"
  by (simp add: dispatcher_ok_def map_ok_def constructor_def)

lemma insert_bin_split:
  "\<exists>xs ys. list = xs @ ys \<and> insert_bin list bin = xs @ bin # ys"
proof -
  have "list = takeWhile (\<lambda>b. \<not> priority b \<le> priority bin) list @
               dropWhile (\<lambda>b. \<not> priority b \<le> priority bin) list"
    by simp
  then show ?thesis unfolding insert_bin_def by blast
qed


lemma bucket_ok_insert_bin:
  assumes "distinct (map listener list)" and "listener bin \<notin> listener ` set list"
  shows "bucket_ok (insert_bin list bin)"
proof -
  obtain xs ys where l: "list = xs @ ys" and i: "insert_bin list bin = xs @ bin # ys"
    using insert_bin_split by blast
  from assms have "bucket_ok (xs @ bin # ys)" unfolding l by (auto simp: bucket_ok_def)
  then show ?thesis by (simp add: i)
qed

lemma remove_bin_present:
  assumes "lsn \<in> listener ` set list"
  shows "\<exists>xs b ys. list = xs @ b # ys \<and> listener b = lsn \<and> lsn \<notin> listener ` set xs
           \<and> remove_bin list lsn = xs @ ys"
proof -
  let ?P = "\<lambda>b. listener b \<noteq> lsn"
  from assms have "\<exists>b\<in>set list. \<not> ?P b" by auto
  then have ne: "dropWhile ?P list \<noteq> []" by (simp add: dropWhile_eq_Nil_conv)
  then obtain b ys where d: "dropWhile ?P list = b # ys" by (cases "dropWhile ?P list") auto
  then have hb: "listener b = lsn" using hd_dropWhile [of ?P list] ne by auto
  have "list = takeWhile ?P list @ b # ys" using d takeWhile_dropWhile_id [of ?P list] by simp
  moreover have "lsn \<notin> listener ` set (takeWhile ?P list)"
    using set_takeWhileD [of _ ?P list] by auto
  moreover have "remove_bin list lsn = takeWhile ?P list @ ys" by (simp add: remove_bin_def d)
  ultimately show ?thesis using hb by blast
qed

lemma remove_bin_distinct:
  "distinct (map listener list) \<Longrightarrow> distinct (map listener (remove_bin list lsn))"
proof (cases "lsn \<in> listener ` set list")
  case True
  assume dist: "distinct (map listener list)"
  obtain xs b ys where "list = xs @ b # ys" and "remove_bin list lsn = xs @ ys"
    using remove_bin_present [OF True] by blast
  then show ?thesis using dist by auto
next
  case False
  assume "distinct (map listener list)"
  then show ?thesis using False by (simp add: remove_bin_absent)
qed

lemma remove_bin_gone:
  assumes "distinct (map listener list)"
  shows "lsn \<notin> listener ` set (remove_bin list lsn)"
proof (cases "lsn \<in> listener ` set list")
  case True
  obtain xs b ys where l: "list = xs @ b # ys" and b: "listener b = lsn"
      and r: "remove_bin list lsn = xs @ ys"
    using remove_bin_present [OF True] by blast
  from assms have "lsn \<notin> listener ` set (xs @ ys)" unfolding l using b by auto
  then show ?thesis by (simp add: r)
next
  case False
  then show ?thesis by (simp add: remove_bin_absent)
qed

lemma remove_bin_length:
  "lsn \<in> listener ` set list \<Longrightarrow> Suc (length (remove_bin list lsn)) = length list"
proof -
  assume "lsn \<in> listener ` set list"
  then obtain xs b ys where "list = xs @ b # ys" and "remove_bin list lsn = xs @ ys"
    using remove_bin_present by blast
  then show ?thesis by simp
qed

lemma addEventListener_ok:
  assumes "dispatcher_ok this"
  shows "dispatcher_ok (snd (addEventListener this typ lsn thisObj uc prio))"
proof (cases "select_map this uc typ")
  case None
  have "bucket_ok [\<lparr>listener = lsn, thisObject = thisObj, priority = prio\<rparr>]"
    by (simp add: bucket_ok_def)
  then show ?thesis using None assms
    by (simp add: addEventListener_eq dispatcher_ok_store map_ok_upd dispatcher_ok_select)
next
  case (Some list)
  then have "bucket_ok list" using dispatcher_ok_select [OF assms, of uc] by (simp add: map_ok_def)
  then have dist: "distinct (map listener list)" by (simp add: bucket_ok_def)
  show ?thesis
  proof (cases "lsn \<in> listener ` set list")
    case True
    then show ?thesis using Some assms by (simp add: addEventListener_eq)
  next
    case False
    then have "bucket_ok (insert_bin list \<lparr>listener = lsn, thisObject = thisObj, priority = prio\<rparr>)"
      using dist by (simp add: bucket_ok_insert_bin)
    then show ?thesis using Some False assms
      by (simp add: addEventListener_eq dispatcher_ok_store map_ok_upd dispatcher_ok_select)
  qed
qed

lemma removeEventListener_ok:
  assumes "dispatcher_ok this"
  shows "dispatcher_ok (snd (removeEventListener this typ lsn uc))"
proof (cases "select_map this uc typ")
  case None
  then show ?thesis using assms by (simp add: removeEventListener_eq)
next
  case (Some list)
  then have "bucket_ok list" using dispatcher_ok_select [OF assms, of uc] by (simp add: map_ok_def)
  then have "distinct (map listener (remove_bin list lsn))"
    by (simp add: bucket_ok_def remove_bin_distinct)
  then have "remove_bin list lsn \<noteq> [] \<Longrightarrow> bucket_ok (remove_bin list lsn)"
    by (simp add: bucket_ok_def)
  then show ?thesis using Some assms
    by (simp add: removeEventListener_eq dispatcher_ok_store map_ok_upd map_ok_del
        dispatcher_ok_select)
qed



lemma bucket_addEventListener:
  assumes "fst (addEventListener this typ lsn thisObj uc prio) = None"
  shows "bucket (snd (addEventListener this typ lsn thisObj uc prio)) uc typ =
     (if lsn \<in> listener ` set (bucket this uc typ) then bucket this uc typ
      else insert_bin (bucket this uc typ) \<lparr>listener = lsn, thisObject = thisObj, priority = prio\<rparr>)"
proof (cases "select_map this uc typ")
  case None
  with assms have "Object_prototype typ = None"
    by (simp add: addEventListener_returns split: if_splits)
  with None show ?thesis by (simp add: bucket_def addEventListener_eq insert_bin_def)
next
  case (Some list)
  then show ?thesis by (simp add: bucket_def addEventListener_eq)
qed

lemma addEventListener_thrown:
  "fst (addEventListener this typ lsn thisObj uc prio) \<noteq> None \<Longrightarrow>
   snd (addEventListener this typ lsn thisObj uc prio) = this"
  by (cases "select_map this uc typ")
    (auto simp: addEventListener_returns addEventListener_eq split: if_splits)


section \<open>Lemmas on the notification loop\<close>

lemma notify_loop_prefix:
  "notify_loop call list event = (r, event', lg) \<Longrightarrow> map fst lg = take (length lg) list"
proof (induction list arbitrary: event r event' lg)
  case Nil
  then show ?case by simp
next
  case (Cons bin rest)
  obtain e ev1 where c: "call (listener bin) (thisObject bin) event = (e, ev1)"
    by (cases "call (listener bin) (thisObject bin) event")
  show ?case
  proof (cases "e = None \<and> \<not> u_isPropagationImmediateStopped ev1")
    case True
    obtain r2 ev2 lg2 where n: "notify_loop call rest ev1 = (r2, ev2, lg2)"
      by (cases "notify_loop call rest ev1")
    with Cons.prems c True have "lg = (bin, event, ev1) # lg2" by auto
    then show ?thesis using Cons.IH [OF n] by simp
  next
    case False
    with Cons.prems c have "lg = [(bin, event, ev1)]" by (cases e) (auto split: if_splits)
    then show ?thesis by simp
  qed
qed

lemma notify_loop_stop:
  "notify_loop call list event = (r, event', lg) \<Longrightarrow> i < length lg \<Longrightarrow>
   lg ! i = (bin, ev_in, ev_out) \<Longrightarrow>
   call (listener bin) (thisObject bin) ev_in = (None, ev_out) \<Longrightarrow>
   u_isPropagationImmediateStopped ev_out \<Longrightarrow>
   Suc i = length lg \<and> r = None \<and> event' = ev_out"
proof (induction list arbitrary: event r event' lg i)
  case Nil
  then show ?case by simp
next
  case (Cons b rest)
  obtain e ev1 where c: "call (listener b) (thisObject b) event = (e, ev1)"
    by (cases "call (listener b) (thisObject b) event")
  show ?case
  proof (cases "e = None \<and> \<not> u_isPropagationImmediateStopped ev1")
    case True
    obtain r2 ev2 lg2 where n: "notify_loop call rest ev1 = (r2, ev2, lg2)"
      by (cases "notify_loop call rest ev1")
    with Cons.prems(1) c True
    have lg: "lg = (b, event, ev1) # lg2" and r: "r = r2" and ev: "event' = ev2" by auto
    show ?thesis
    proof (cases i)
      case 0
      with Cons.prems(3) lg have "bin = b" "ev_in = event" "ev_out = ev1" by auto
      with Cons.prems(4,5) c True show ?thesis by simp
    next
      case (Suc j)
      with Cons.prems(2,3) lg have "j < length lg2" "lg2 ! j = (bin, ev_in, ev_out)" by auto
      from Cons.IH [OF n this Cons.prems(4,5)] show ?thesis using lg r ev Suc by simp
    qed
  next
    case False
    with Cons.prems(1) c have lg: "lg = [(b, event, ev1)]" and r: "r = e" and ev: "event' = ev1"
      by (cases e; auto split: if_splits)+
    with Cons.prems(2,3) have "i = 0" "bin = b" "ev_in = event" "ev_out = ev1" by auto
    with Cons.prems(4) c lg r ev show ?thesis by simp
  qed
qed

lemma notify_loop_bins:
  "notify_loop call list event = (r, event', lg) \<Longrightarrow> (bin, ev_in, ev_out) \<in> set lg \<Longrightarrow>
   bin \<in> set list"
proof -
  assume n: "notify_loop call list event = (r, event', lg)" and m: "(bin, ev_in, ev_out) \<in> set lg"
  from m have "bin \<in> set (map fst lg)" by force
  then have "bin \<in> set (take (length lg) list)" using notify_loop_prefix [OF n] by simp
  then show ?thesis by (rule in_set_takeD)
qed

lemma notify_loop_setter:
  "notify_loop call list event = (r, event', lg) \<Longrightarrow>
   defaultPrevented event' \<Longrightarrow> \<not> defaultPrevented event \<Longrightarrow>
   \<exists>bin ev_in ev_out. (bin, ev_in, ev_out) \<in> set lg \<and> \<not> defaultPrevented ev_in
       \<and> defaultPrevented ev_out"
proof (induction list arbitrary: event r event' lg)
  case Nil
  then show ?case by simp
next
  case (Cons b rest)
  obtain e ev1 where c: "call (listener b) (thisObject b) event = (e, ev1)"
    by (cases "call (listener b) (thisObject b) event")
  show ?case
  proof (cases "e = None \<and> \<not> u_isPropagationImmediateStopped ev1")
    case True
    obtain r2 ev2 lg2 where n: "notify_loop call rest ev1 = (r2, ev2, lg2)"
      by (cases "notify_loop call rest ev1")
    with Cons.prems(1) c True
    have lg: "lg = (b, event, ev1) # lg2" and ev: "event' = ev2" by auto
    show ?thesis
    proof (cases "defaultPrevented ev1")
      case True
      then show ?thesis using lg Cons.prems(3) by auto
    next
      case False
      from Cons.IH [OF n _ False] Cons.prems(2) ev show ?thesis using lg by auto
    qed
  next
    case False
    with Cons.prems(1) c have lg: "lg = [(b, event, ev1)]" and ev: "event' = ev1"
      by (cases e; auto split: if_splits)+
    then show ?thesis using Cons.prems(2,3) by auto
  qed
qed

text \<open>The definitions that evaluating the dispatcher on a concrete input unfolds.\<close>

lemmas eval_defs = Let_def dispatchEvent_def u_notifyListener_def sample_event_def sample_call_def
  u_reset_def u_setCurrentTarget_def isDefaultPrevented_def constructor_def addEventListener_def
  removeEventListener_def select_map_def store_map_def splice_insert_def splice_delete_def
  bucket_def hasEventListener_def get_property_def Object_prototype_def

lemma u_notifyListener_cases:
  assumes "u_notifyListener ambient_type call this event = (r, event', lg)"
  shows "(lg = [] \<and> event' = event
            \<and> (r = Inr True \<or> r = Inr (\<not> defaultPrevented event) \<or> (\<exists>err. r = Inl err)))
       \<or> (\<exists>typ list e. ambient_type = Some typ
             \<and> select_map this (u_eventPhase event = 1) typ = Some list
             \<and> notify_loop call list event = (e, event', lg)
             \<and> r = (case e of Some err \<Rightarrow> Inl err | None \<Rightarrow> Inr (\<not> defaultPrevented event')))"
proof (cases ambient_type)
  case None
  with assms show ?thesis by (auto simp: u_notifyListener_def)
next
  case (Some k)
  show ?thesis
  proof (cases "select_map this (u_eventPhase event = 1) k")
    case None
    with assms Some show ?thesis
      by (auto simp: u_notifyListener_def select_map_def get_property_def isDefaultPrevented_def
          split: option.splits if_splits)
  next
    case (Some list)
    obtain e ev2 lg2 where n: "notify_loop call list event = (e, ev2, lg2)"
      by (cases "notify_loop call list event")
    with assms \<open>ambient_type = Some k\<close> Some
    have "event' = ev2" "lg = lg2"
      "r = (case e of Some err \<Rightarrow> Inl err | None \<Rightarrow> Inr (\<not> defaultPrevented ev2))"
      by (auto simp: u_notifyListener_def select_map_def get_property_def isDefaultPrevented_def
          split: option.splits)
    with n Some \<open>ambient_type = Some k\<close> show ?thesis by auto
  qed
qed

lemma u_notifyListener_bins:
  assumes "u_notifyListener ambient_type call this event = (r, event', lg)"
    and "(bin, ev_in, ev_out) \<in> set lg"
  shows "\<exists>typ. ambient_type = Some typ \<and> bin \<in> set (bucket this (u_eventPhase event = 1) typ)"
proof -
  from assms(2) have "lg \<noteq> []" by auto
  with u_notifyListener_cases [OF assms(1)]
  obtain k list e where a: "ambient_type = Some k"
    and s: "select_map this (u_eventPhase event = 1) k = Some list"
    and n: "notify_loop call list event = (e, event', lg)"
    by auto
  from notify_loop_bins [OF n assms(2)] have "bin \<in> set list" .
  then show ?thesis using a s by (simp add: bucket_def)
qed

lemma notify_loop_head:
  "notify_loop call list event = (e, event', lg) \<Longrightarrow> lg \<noteq> [] \<Longrightarrow>
   \<exists>bin ev_out. hd lg = (bin, event, ev_out)"
  by (cases list) (auto split: prod.splits option.splits if_splits)

lemma dispatchEvent_eq:
  "dispatchEvent ambient_type call this event =
     u_notifyListener ambient_type call this
       (event\<lparr> propagationStopped := False, u_isPropagationImmediateStopped := False,
               defaultPrevented := False, u_target := Some (target this),
               currentTarget := Some (target this) \<rparr>)"
  by (simp add: dispatchEvent_def Let_def u_reset_def u_setCurrentTarget_def)

section \<open>Lemmas on the frame of registration and removal\<close>

lemma hasEventListener_select:
  "hasEventListener this typ =
     (Object_prototype typ \<noteq> None \<or> select_map this uc typ \<noteq> None
        \<or> select_map this (\<not> uc) typ \<noteq> None)"
  by (cases uc; cases "u_eventsMap this typ"; cases "u_captureEventsMap this typ";
      cases "Object_prototype typ")
    (simp_all add: hasEventListener_def get_property_def select_map_def)

lemma bucket_removeEventListener:
  "bucket (snd (removeEventListener this typ lsn uc)) uc typ = remove_bin (bucket this uc typ) lsn"
  by (cases "select_map this uc typ")
    (simp_all add: bucket_def removeEventListener_eq remove_bin_def)

lemma select_removeEventListener:
  "select_map (snd (removeEventListener this typ lsn uc)) uc typ =
     (case select_map this uc typ of
        None \<Rightarrow> None
      | Some list \<Rightarrow> if remove_bin list lsn = [] then None else Some (remove_bin list lsn))"
  by (cases "select_map this uc typ") (simp_all add: removeEventListener_eq)

lemma removeEventListener_absent:
  assumes "dispatcher_ok this" and "lsn \<notin> listener ` set (bucket this uc typ)"
  shows "snd (removeEventListener this typ lsn uc) = this"
proof (cases "select_map this uc typ")
  case None
  then show ?thesis by (simp add: removeEventListener_eq)
next
  case (Some list)
  then have "bucket_ok list" using dispatcher_ok_select [OF assms(1), of uc] by (simp add: map_ok_def)
  then have ne: "list \<noteq> []" by (simp add: bucket_ok_def)
  from assms(2) Some have "remove_bin list lsn = list" by (simp add: bucket_def remove_bin_absent)
  moreover have "(select_map this uc)(typ \<mapsto> list) = select_map this uc"
    using Some by (simp add: map_upd_triv)
  ultimately show ?thesis using Some ne by (simp add: removeEventListener_eq)
qed

lemma frame_other_map:
  "select_map (snd (addEventListener this typ lsn thisObj uc prio)) (\<not> uc) = select_map this (\<not> uc)"
  "select_map (snd (removeEventListener this typ lsn uc)) (\<not> uc) = select_map this (\<not> uc)"
  by (simp_all add: addEventListener_eq removeEventListener_eq split: option.splits)

lemma frame_other_type:
  "typ' \<noteq> typ \<Longrightarrow>
     select_map (snd (addEventListener this typ lsn thisObj uc prio)) uc typ' = select_map this uc typ'"
  "typ' \<noteq> typ \<Longrightarrow>
     select_map (snd (removeEventListener this typ lsn uc)) uc typ' = select_map this uc typ'"
  by (simp_all add: addEventListener_eq removeEventListener_eq split: option.splits)

lemma target_store [simp]: "target (store_map this uc m) = target this"
  by (simp add: store_map_def)

lemma isUseCapture_store [simp]: "u_isUseCapture (store_map this uc m) = u_isUseCapture this"
  by (simp add: store_map_def)

lemma frame_fields:
  "target (snd (addEventListener this typ lsn thisObj uc prio)) = target this"
  "target (snd (removeEventListener this typ lsn uc)) = target this"
  "u_isUseCapture (snd (addEventListener this typ lsn thisObj uc prio)) = u_isUseCapture this"
  "u_isUseCapture (snd (removeEventListener this typ lsn uc)) = u_isUseCapture this"
  by (simp_all add: addEventListener_eq removeEventListener_eq split: option.splits)

lemma bucket_other_map:
  "bucket (snd (addEventListener this typ lsn thisObj uc prio)) (\<not> uc) typ' = bucket this (\<not> uc) typ'"
  by (simp add: bucket_def frame_other_map)

lemma insert_bin_position:
  "\<exists>xs ys. list = xs @ ys \<and> insert_bin list bin = xs @ bin # ys
     \<and> (\<forall>b\<in>set xs. priority bin < priority b)
     \<and> (ys \<noteq> [] \<longrightarrow> priority (hd ys) \<le> priority bin)"
proof -
  let ?P = "\<lambda>b. \<not> priority b \<le> priority bin"
  have "list = takeWhile ?P list @ dropWhile ?P list" by simp
  moreover have "insert_bin list bin = takeWhile ?P list @ bin # dropWhile ?P list"
    by (simp add: insert_bin_def)
  moreover have "\<forall>b\<in>set (takeWhile ?P list). priority bin < priority b"
    using set_takeWhileD [of _ ?P list] by force
  moreover have "dropWhile ?P list \<noteq> [] \<longrightarrow> priority (hd (dropWhile ?P list)) \<le> priority bin"
    using hd_dropWhile [of ?P list] by auto
  ultimately show ?thesis by blast
qed

lemma descending_insert_bin: "descending list \<Longrightarrow> descending (insert_bin list bin)"
proof -
  assume d: "descending list"
  obtain xs ys where l: "list = xs @ ys" and i: "insert_bin list bin = xs @ bin # ys"
    and hi: "\<forall>b\<in>set xs. priority bin < priority b"
    and lo: "ys \<noteq> [] \<longrightarrow> priority (hd ys) \<le> priority bin"
    using insert_bin_position by blast
  from d have dx: "sorted_wrt (\<lambda>a b. priority b \<le> priority a) xs"
    and dy: "sorted_wrt (\<lambda>a b. priority b \<le> priority a) ys"
    and xy: "\<forall>a\<in>set xs. \<forall>b\<in>set ys. priority b \<le> priority a"
    unfolding l descending_def by (auto simp: sorted_wrt_append)
  have below: "\<forall>b\<in>set ys. priority b \<le> priority bin"
  proof (cases ys)
    case Nil
    then show ?thesis by simp
  next
    case (Cons y rest)
    with lo have "priority y \<le> priority bin" by simp
    moreover from dy Cons have "\<forall>b\<in>set rest. priority b \<le> priority y" by simp
    ultimately show ?thesis using Cons by auto
  qed
  have "sorted_wrt (\<lambda>a b. priority b \<le> priority a) (xs @ bin # ys)"
    using dx dy xy hi below by (auto simp: sorted_wrt_append less_imp_le)
  then show ?thesis by (simp add: i descending_def)
qed

section \<open>Evaluations\<close>

lemma three_listeners_bucket:
  "bucket three_listeners False ''x'' =
     [\<lparr> listener = 1, thisObject = 7, priority = 3 \<rparr>,
      \<lparr> listener = 2, thisObject = 7, priority = 2 \<rparr>,
      \<lparr> listener = 4, thisObject = 7, priority = 1 \<rparr>]"
  by (simp add: three_listeners_def eval_defs)

lemma three_listeners_pass:
  "u_notifyListener (Some ''x'') sample_call three_listeners (sample_event ''x'' 2) =
     (Inr False,
      (sample_event ''x'' 2)\<lparr> u_isPropagationImmediateStopped := True, defaultPrevented := True \<rparr>,
      [(\<lparr> listener = 1, thisObject = 7, priority = 3 \<rparr>,
        sample_event ''x'' 2,
        (sample_event ''x'' 2)\<lparr> defaultPrevented := True \<rparr>),
       (\<lparr> listener = 2, thisObject = 7, priority = 2 \<rparr>,
        (sample_event ''x'' 2)\<lparr> defaultPrevented := True \<rparr>,
        (sample_event ''x'' 2)\<lparr> u_isPropagationImmediateStopped := True,
                                  defaultPrevented := True \<rparr>)])"
  by (simp add: three_listeners_def eval_defs)

lemma capture_only_pass:
  "u_notifyListener (Some ''x'') sample_call capture_only (sample_event ''x'' 2) =
     (Inr True, sample_event ''x'' 2,
      [(\<lparr> listener = 4, thisObject = 7, priority = 0 \<rparr>, sample_event ''x'' 2,
        sample_event ''x'' 2)])"
  by (simp add: capture_only_def eval_defs)

lemma prevented_dispatch:
  "dispatchEvent (Some ''x'') sample_call
       (snd (addEventListener (constructor 0 None) ''x'' 1 7 False 0)) (sample_event ''x'' 2)
     = (Inr False,
        (sample_event ''x'' 2)\<lparr> u_target := Some 0, currentTarget := Some 0,
                                 defaultPrevented := True \<rparr>,
        [(\<lparr> listener = 1, thisObject = 7, priority = 0 \<rparr>,
          (sample_event ''x'' 2)\<lparr> u_target := Some 0, currentTarget := Some 0 \<rparr>,
          (sample_event ''x'' 2)\<lparr> u_target := Some 0, currentTarget := Some 0,
                                   defaultPrevented := True \<rparr>)])"
  by (simp add: eval_defs)

section \<open>The claims\<close>

subsection \<open>C1: dispatching reaches the listeners of the event's type\<close>

text \<open>
  C1 says that a listener registered for type \<open>x\<close> in the bucket of the event's phase is
  invoked when an event of type \<open>x\<close> is dispatched, the lookup being keyed by the
  event's own type.  The code keys the lookup by the free identifier \<^verbatim>\<open>type\<close> of line
  161 instead.  With one listener registered for \<open>x\<close> and an event of type \<open>x\<close> in the
  target phase: where \<^verbatim>\<open>type\<close> is unbound the dispatch throws, where it is bound to
  \<open>y\<close> the dispatch returns true, and in both the log is empty, so the listener is not
  invoked.
\<close>

theorem dispatchEvent_ignores_event_type:
  "dispatchEvent None sample_call
       (snd (addEventListener (constructor 0 None) ''x'' 4 7 False 0)) (sample_event ''x'' 2)
     = (Inl ReferenceError,
        (sample_event ''x'' 2)\<lparr> u_target := Some 0, currentTarget := Some 0 \<rparr>, [])
   \<and> dispatchEvent (Some ''y'') sample_call
       (snd (addEventListener (constructor 0 None) ''x'' 4 7 False 0)) (sample_event ''x'' 2)
     = (Inr True,
        (sample_event ''x'' 2)\<lparr> u_target := Some 0, currentTarget := Some 0 \<rparr>, [])
   \<and> bucket (snd (addEventListener (constructor 0 None) ''x'' 4 7 False 0)) False ''x''
     = [\<lparr> listener = 4, thisObject = 7, priority = 0 \<rparr>]"
  by (simp add: eval_defs)

subsection \<open>C2: order of a bucket\<close>

text \<open>
  C2 says that bindings are kept in descending priority with equal priorities in the
  order of their registration, so that registering the priorities 0, 5, 0, 3 notifies
  the listeners of priority 5, 3, the first of priority 0, the second of priority 0.
  The comparison \<^verbatim>\<open>bin.priority <= priority\<close> of line 91 puts a new binding in front of
  the bindings of its own priority: the second listener of priority 0 (address 13)
  comes before the first (address 11), in the bucket and in the notification.
\<close>

theorem equal_priorities_latest_first:
  "bucket (snd (addEventListener (snd (addEventListener (snd (addEventListener (snd (addEventListener
       (constructor 0 None) ''x'' 11 7 False 0)) ''x'' 12 7 False 5)) ''x'' 13 7 False 0))
       ''x'' 14 7 False 3)) False ''x''
     = [\<lparr> listener = 12, thisObject = 7, priority = 5 \<rparr>,
        \<lparr> listener = 14, thisObject = 7, priority = 3 \<rparr>,
        \<lparr> listener = 13, thisObject = 7, priority = 0 \<rparr>,
        \<lparr> listener = 11, thisObject = 7, priority = 0 \<rparr>]
   \<and> map (\<lambda>entry. listener (fst entry))
       (snd (snd (u_notifyListener (Some ''x'') sample_call
          (snd (addEventListener (snd (addEventListener (snd (addEventListener (snd (addEventListener
             (constructor 0 None) ''x'' 11 7 False 0)) ''x'' 12 7 False 5)) ''x'' 13 7 False 0))
             ''x'' 14 7 False 3))
          (sample_event ''x'' 2))))
     = [12, 14, 13, 11]"
  by (simp add: eval_defs)

subsection \<open>C3: registering a listener twice\<close>



subsection \<open>C4: the result of a dispatch\<close>

text \<open>
  C4 says that \<open>dispatchEvent\<close> returns false exactly when an invoked listener prevented
  the default, and true when there is no bucket for the event's type.  On a dispatcher
  without any listener the dispatch of an event of type \<open>x\<close> throws where \<^verbatim>\<open>type\<close> is
  unbound; and where \<^verbatim>\<open>type\<close> is bound to \<open>y\<close>, a dispatcher with no bucket for \<open>x\<close> in
  either map and a default-preventing listener for \<open>y\<close> returns false.
\<close>

theorem dispatchEvent_without_bucket:
  "dispatchEvent None sample_call (constructor 0 None) (sample_event ''x'' 2)
     = (Inl ReferenceError,
        (sample_event ''x'' 2)\<lparr> u_target := Some 0, currentTarget := Some 0 \<rparr>, [])
   \<and> bucket (snd (addEventListener (constructor 0 None) ''y'' 1 7 False 0)) False ''x'' = []
   \<and> bucket (snd (addEventListener (constructor 0 None) ''y'' 1 7 False 0)) True ''x'' = []
   \<and> fst (dispatchEvent (Some ''y'') sample_call
       (snd (addEventListener (constructor 0 None) ''y'' 1 7 False 0)) (sample_event ''x'' 2))
     = Inr False"
  by (simp add: eval_defs)

subsection \<open>C5: stopping the propagation at once\<close>

text \<open>
  C5: in a pass of \<open>u_notifyListener\<close>, when the call of a listener returns with the
  immediate-stop flag of the event set, that call is the last of the pass: the
  bindings invoked are the bucket up to and including that binding and none stored
  after it.  The pass returns the negation of the default-prevented flag of the event
  as that call left it.
\<close>

theorem immediate_stop_ends_pass:
  assumes "u_notifyListener ambient_type call this event = (r, event', lg)"
    and "i < length lg"
    and "lg ! i = (bin, ev_in, ev_out)"
    and "call (listener bin) (thisObject bin) ev_in = (None, ev_out)"
    and "u_isPropagationImmediateStopped ev_out"
  shows "Suc i = length lg
       \<and> (\<exists>typ. ambient_type = Some typ
             \<and> map fst lg = take (Suc i) (bucket this (u_eventPhase event = 1) typ))
       \<and> r = Inr (\<not> defaultPrevented ev_out)
       \<and> event' = ev_out"
proof -
  from assms(2) have "lg \<noteq> []" by auto
  with u_notifyListener_cases [OF assms(1)]
  obtain k list e where a: "ambient_type = Some k"
    and s: "select_map this (u_eventPhase event = 1) k = Some list"
    and n: "notify_loop call list event = (e, event', lg)"
    and r: "r = (case e of Some err \<Rightarrow> Inl err | None \<Rightarrow> Inr (\<not> defaultPrevented event'))"
    by auto
  from notify_loop_stop [OF n assms(2-5)]
  have last: "Suc i = length lg" and e: "e = None" and ev: "event' = ev_out" by auto
  have "map fst lg = take (Suc i) list" using notify_loop_prefix [OF n] last by simp
  then have "map fst lg = take (Suc i) (bucket this (u_eventPhase event = 1) k)"
    using s by (simp add: bucket_def)
  then show ?thesis using last a r e ev by simp
qed

theorem immediate_stop_ends_pass_witness:
  "u_notifyListener (Some ''x'') sample_call three_listeners (sample_event ''x'' 2) =
     (Inr False,
      (sample_event ''x'' 2)\<lparr> u_isPropagationImmediateStopped := True, defaultPrevented := True \<rparr>,
      [(\<lparr> listener = 1, thisObject = 7, priority = 3 \<rparr>,
        sample_event ''x'' 2,
        (sample_event ''x'' 2)\<lparr> defaultPrevented := True \<rparr>),
       (\<lparr> listener = 2, thisObject = 7, priority = 2 \<rparr>,
        (sample_event ''x'' 2)\<lparr> defaultPrevented := True \<rparr>,
        (sample_event ''x'' 2)\<lparr> u_isPropagationImmediateStopped := True,
                                  defaultPrevented := True \<rparr>)])
   \<and> sample_call 2 7 ((sample_event ''x'' 2)\<lparr> defaultPrevented := True \<rparr>)
       = (None, (sample_event ''x'' 2)\<lparr> u_isPropagationImmediateStopped := True,
                                          defaultPrevented := True \<rparr>)
   \<and> u_isPropagationImmediateStopped
        ((sample_event ''x'' 2)\<lparr> u_isPropagationImmediateStopped := True, defaultPrevented := True \<rparr>)
   \<and> (\<exists>typ. Some ''x'' = Some typ
         \<and> [\<lparr> listener = 1, thisObject = 7, priority = 3 \<rparr>,
            \<lparr> listener = 2, thisObject = 7, priority = 2 \<rparr>]
           = take 2 (bucket three_listeners (u_eventPhase (sample_event ''x'' 2) = 1) typ))
   \<and> length (bucket three_listeners False ''x'') = 3"
proof -
  let ?e1 = "(sample_event ''x'' 2)\<lparr> defaultPrevented := True \<rparr>"
  let ?e2 = "(sample_event ''x'' 2)\<lparr> u_isPropagationImmediateStopped := True,
                                     defaultPrevented := True \<rparr>"
  let ?b2 = "\<lparr> listener = 2, thisObject = 7, priority = 2 \<rparr>"
  have c: "sample_call (listener ?b2) (thisObject ?b2) ?e1 = (None, ?e2)"
    by (simp add: sample_call_def sample_event_def)
  have s: "u_isPropagationImmediateStopped ?e2" by simp
  from immediate_stop_ends_pass [OF three_listeners_pass, of 1 ?b2 ?e1 ?e2] c s
  have "\<exists>typ. Some ''x'' = Some typ
         \<and> [\<lparr> listener = 1, thisObject = 7, priority = 3 \<rparr>, ?b2]
           = take 2 (bucket three_listeners (u_eventPhase (sample_event ''x'' 2) = 1) typ)"
    by (simp add: numeral_2_eq_2)
  moreover from c have "sample_call 2 7 ?e1 = (None, ?e2)" by simp
  ultimately show ?thesis using three_listeners_pass s three_listeners_bucket by simp
qed

subsection \<open>C6: one map per phase\<close>

text \<open>
  C6: every binding that \<open>u_notifyListener\<close> invokes is in a bucket of the map that the
  event's phase selects, the capture map in phase 1 and the target and bubble map
  otherwise.  So a listener registered with \<open>useCapture\<close> true, and in no bucket of the
  target and bubble map, is not invoked for an event whose phase is not the capture
  phase; and one registered with \<open>useCapture\<close> false, and in no bucket of the capture
  map, is not invoked for an event in the capture phase.
\<close>

theorem phase_isolation:
  assumes "u_notifyListener ambient_type call
             (snd (addEventListener this typ lsn thisObj useCapture prio)) event = (r, event', lg)"
    and "(bin, ev_in, ev_out) \<in> set lg"
  shows "(\<exists>typ'. ambient_type = Some typ'
            \<and> bin \<in> set (bucket (snd (addEventListener this typ lsn thisObj useCapture prio))
                             (u_eventPhase event = 1) typ'))
       \<and> ((u_eventPhase event = 1) \<noteq> useCapture
            \<and> (\<forall>typ'. lsn \<notin> listener ` set (bucket this (\<not> useCapture) typ'))
            \<longrightarrow> listener bin \<noteq> lsn)"
proof -
  let ?d = "snd (addEventListener this typ lsn thisObj useCapture prio)"
  from u_notifyListener_bins [OF assms]
  obtain k where a: "ambient_type = Some k"
    and m: "bin \<in> set (bucket ?d (u_eventPhase event = 1) k)"
    by blast
  have "listener bin \<noteq> lsn"
    if ph: "(u_eventPhase event = 1) \<noteq> useCapture"
      and none: "\<forall>typ'. lsn \<notin> listener ` set (bucket this (\<not> useCapture) typ')"
  proof -
    from ph have "(u_eventPhase event = 1) = (\<not> useCapture)" by auto
    with m have "bin \<in> set (bucket this (\<not> useCapture) k)" by (simp add: bucket_other_map)
    with none show ?thesis by (metis image_eqI)
  qed
  with a m show ?thesis by blast
qed

theorem phase_isolation_witness:
  "u_notifyListener (Some ''x'') sample_call capture_only (sample_event ''x'' 2) =
     (Inr True, sample_event ''x'' 2,
      [(\<lparr> listener = 4, thisObject = 7, priority = 0 \<rparr>, sample_event ''x'' 2,
        sample_event ''x'' 2)])
   \<and> (u_eventPhase (sample_event ''x'' 2) = 1) \<noteq> True
   \<and> (\<forall>typ'. 1 \<notin> listener ` set (bucket (snd (addEventListener (constructor 0 None) ''x'' 4 7 False 0))
                                      (\<not> True) typ'))
   \<and> listener \<lparr> listener = 4, thisObject = 7, priority = 0 \<rparr> \<noteq> 1
   \<and> bucket capture_only True ''x'' = [\<lparr> listener = 1, thisObject = 7, priority = 0 \<rparr>]"
proof -
  let ?d = "snd (addEventListener (constructor 0 None) ''x'' 4 7 False 0)"
  let ?b = "\<lparr> listener = 4, thisObject = 7, priority = 0 \<rparr>"
  have p: "u_notifyListener (Some ''x'') sample_call
             (snd (addEventListener ?d ''x'' 1 7 True 0)) (sample_event ''x'' 2)
           = (Inr True, sample_event ''x'' 2, [(?b, sample_event ''x'' 2, sample_event ''x'' 2)])"
    using capture_only_pass by (simp add: capture_only_def)
  have ph: "(u_eventPhase (sample_event ''x'' 2) = 1) \<noteq> True" by (simp add: sample_event_def)
  have none: "\<forall>typ'. 1 \<notin> listener ` set (bucket ?d (\<not> True) typ')"
    by (simp add: eval_defs)
  have b: "bucket capture_only True ''x'' = [\<lparr> listener = 1, thisObject = 7, priority = 0 \<rparr>]"
    by (simp add: capture_only_def eval_defs)
  from phase_isolation [OF p, of ?b "sample_event ''x'' 2" "sample_event ''x'' 2"] ph none
  have "listener ?b \<noteq> 1" by simp
  then show ?thesis using capture_only_pass ph none b by blast
qed

subsection \<open>C7: removal\<close>

text \<open>
  C7 says that after a removal that empties a bucket \<open>hasEventListener\<close> is false for
  the type.  It is not when the map of the other phase has a bucket for the type:
  with one listener for \<open>x\<close> in each map, removing the one of the target and bubble
  map deletes the key there, and \<open>hasEventListener\<close> is still true.  C7 also says that
  removing from an absent bucket does nothing.  For the type \<^verbatim>\<open>constructor\<close>, which a new
  dispatcher has no bucket for, the lookup reads the function that every object
  inherits, and the removal throws.
\<close>

theorem removeEventListener_other_phase:
  "bucket (snd (addEventListener (snd (addEventListener (constructor 0 None) ''x'' 11 7 True 0))
       ''x'' 12 7 False 0)) False ''x''
     = [\<lparr> listener = 12, thisObject = 7, priority = 0 \<rparr>]
   \<and> u_eventsMap (snd (removeEventListener
        (snd (addEventListener (snd (addEventListener (constructor 0 None) ''x'' 11 7 True 0))
           ''x'' 12 7 False 0)) ''x'' 12 False)) ''x'' = None
   \<and> hasEventListener (snd (removeEventListener
        (snd (addEventListener (snd (addEventListener (constructor 0 None) ''x'' 11 7 True 0))
           ''x'' 12 7 False 0)) ''x'' 12 False)) ''x''
   \<and> bucket (constructor 0 None) False ''constructor'' = []
   \<and> removeEventListener (constructor 0 None) ''constructor'' 12 False
       = (Some TypeError, constructor 0 None)"
  by (simp add: eval_defs)

text \<open>
  C7, as amended: in a dispatcher that satisfies the invariant and for a type that is
  not the name of a property of \<^verbatim>\<open>Object.prototype\<close>, \<open>removeEventListener\<close> returns and
  deletes from the selected bucket the first binding of the listener, which is the
  only one; the bucket is never left present and empty: when the removal empties it,
  the key is deleted from the selected map, and \<open>hasEventListener\<close> is then true
  exactly when the map of the other phase has a bucket for the type.  Removing a
  listener that the bucket does not hold, or from an absent bucket, returns and changes
  nothing.
\<close>

theorem removeEventListener_bucket:
  assumes "dispatcher_ok this" and "Object_prototype typ = None"
  shows "fst (removeEventListener this typ lsn useCapture) = None
       \<and> bucket (snd (removeEventListener this typ lsn useCapture)) useCapture typ
           = remove_bin (bucket this useCapture typ) lsn
       \<and> lsn \<notin> listener ` set (bucket (snd (removeEventListener this typ lsn useCapture)) useCapture typ)
       \<and> (lsn \<in> listener ` set (bucket this useCapture typ) \<longrightarrow>
            Suc (length (bucket (snd (removeEventListener this typ lsn useCapture)) useCapture typ))
              = length (bucket this useCapture typ))
       \<and> select_map (snd (removeEventListener this typ lsn useCapture)) useCapture typ \<noteq> Some []
       \<and> (remove_bin (bucket this useCapture typ) lsn = [] \<longrightarrow>
            select_map (snd (removeEventListener this typ lsn useCapture)) useCapture typ = None
            \<and> hasEventListener (snd (removeEventListener this typ lsn useCapture)) typ
                = (select_map this (\<not> useCapture) typ \<noteq> None))
       \<and> (lsn \<notin> listener ` set (bucket this useCapture typ) \<longrightarrow>
            removeEventListener this typ lsn useCapture = (None, this))
       \<and> dispatcher_ok (snd (removeEventListener this typ lsn useCapture))"
proof -
  let ?d = "snd (removeEventListener this typ lsn useCapture)"
  have ret: "fst (removeEventListener this typ lsn useCapture) = None"
    using assms(2) by (rule removeEventListener_returns)
  have ok: "dispatcher_ok ?d" using assms(1) by (rule removeEventListener_ok)
  have b: "bucket ?d useCapture typ = remove_bin (bucket this useCapture typ) lsn"
    by (rule bucket_removeEventListener)
  have dist: "distinct (map listener (bucket this useCapture typ))"
  proof (cases "select_map this useCapture typ")
    case None
    then show ?thesis by (simp add: bucket_def)
  next
    case (Some list)
    then have "bucket_ok list"
      using dispatcher_ok_select [OF assms(1), of useCapture] by (simp add: map_ok_def)
    then show ?thesis using Some by (simp add: bucket_def bucket_ok_def)
  qed
  have gone: "lsn \<notin> listener ` set (bucket ?d useCapture typ)"
    unfolding b using dist by (rule remove_bin_gone)
  have len: "Suc (length (bucket ?d useCapture typ)) = length (bucket this useCapture typ)"
    if "lsn \<in> listener ` set (bucket this useCapture typ)"
    unfolding b using that by (rule remove_bin_length)
  have nonempty: "select_map ?d useCapture typ \<noteq> Some []"
    by (simp add: select_removeEventListener split: option.splits)
  have emptied: "select_map ?d useCapture typ = None"
    if "remove_bin (bucket this useCapture typ) lsn = []"
    using that by (cases "select_map this useCapture typ")
      (simp_all add: select_removeEventListener bucket_def)
  have has: "hasEventListener ?d typ = (select_map this (\<not> useCapture) typ \<noteq> None)"
    if "remove_bin (bucket this useCapture typ) lsn = []"
    using emptied [OF that] hasEventListener_select [of ?d "typ" useCapture] assms(2)
    by (simp add: frame_other_map)
  have noop: "removeEventListener this typ lsn useCapture = (None, this)"
    if "lsn \<notin> listener ` set (bucket this useCapture typ)"
    using removeEventListener_absent [OF assms(1) that] ret by (simp add: prod_eq_iff)
  show ?thesis using ret ok b gone len nonempty emptied has noop by blast
qed

theorem removeEventListener_bucket_witness:
  "dispatcher_ok (snd (addEventListener (constructor 0 None) ''x'' 12 7 False 0))
   \<and> Object_prototype ''x'' = None
   \<and> remove_bin (bucket (snd (addEventListener (constructor 0 None) ''x'' 12 7 False 0))
        False ''x'') 12 = []
   \<and> 12 \<in> listener ` set (bucket (snd (addEventListener (constructor 0 None) ''x'' 12 7 False 0))
                              False ''x'')
   \<and> 13 \<notin> listener ` set (bucket (snd (addEventListener (constructor 0 None) ''x'' 12 7 False 0))
                              False ''x'')
   \<and> fst (removeEventListener (snd (addEventListener (constructor 0 None) ''x'' 12 7 False 0))
        ''x'' 12 False) = None
   \<and> select_map (snd (removeEventListener
        (snd (addEventListener (constructor 0 None) ''x'' 12 7 False 0)) ''x'' 12 False))
        False ''x'' = None
   \<and> hasEventListener (snd (removeEventListener
        (snd (addEventListener (constructor 0 None) ''x'' 12 7 False 0)) ''x'' 12 False)) ''x''
       = (select_map (snd (addEventListener (constructor 0 None) ''x'' 12 7 False 0))
            (\<not> False) ''x'' \<noteq> None)
   \<and> Suc (length (bucket (snd (removeEventListener
        (snd (addEventListener (constructor 0 None) ''x'' 12 7 False 0)) ''x'' 12 False))
        False ''x''))
       = length (bucket (snd (addEventListener (constructor 0 None) ''x'' 12 7 False 0))
           False ''x'')
   \<and> removeEventListener (snd (addEventListener (constructor 0 None) ''x'' 12 7 False 0))
        ''x'' 13 False
       = (None, snd (addEventListener (constructor 0 None) ''x'' 12 7 False 0))"
proof -
  let ?d = "snd (addEventListener (constructor 0 None) ''x'' 12 7 False 0)"
  have ok: "dispatcher_ok ?d" by (simp add: addEventListener_ok constructor_ok)
  have plain: "Object_prototype ''x'' = None" by (simp add: Object_prototype_def)
  have b: "bucket ?d False ''x'' = [\<lparr> listener = 12, thisObject = 7, priority = 0 \<rparr>]"
    by (simp add: eval_defs)
  have e: "remove_bin (bucket ?d False ''x'') 12 = []" by (simp add: b remove_bin_def)
  have m: "12 \<in> listener ` set (bucket ?d False ''x'')" by (simp add: b)
  have n: "13 \<notin> listener ` set (bucket ?d False ''x'')" by (simp add: b)
  show ?thesis
    using removeEventListener_bucket [OF ok plain, of 12 False]
      removeEventListener_bucket [OF ok plain, of 13 False] ok plain e m n
    by blast
qed

subsection \<open>C8: a dispatch starts from a reset and stamped event\<close>

text \<open>
  C8 says that \<open>dispatchEvent\<close> resets the three flags and stamps both targets before it
  notifies, so that two dispatches in a row of one event, with listeners that set no
  flag, both return true.  Where \<^verbatim>\<open>type\<close> is unbound both dispatches throw: the first
  leaves the event stamped, and the second, on that event, throws again.
\<close>

theorem consecutive_dispatch_raises:
  "dispatchEvent None sample_call
       (snd (addEventListener (constructor 0 None) ''x'' 4 7 False 0)) (sample_event ''x'' 2)
     = (Inl ReferenceError,
        (sample_event ''x'' 2)\<lparr> u_target := Some 0, currentTarget := Some 0 \<rparr>, [])
   \<and> dispatchEvent None sample_call
       (snd (addEventListener (constructor 0 None) ''x'' 4 7 False 0))
       ((sample_event ''x'' 2)\<lparr> u_target := Some 0, currentTarget := Some 0 \<rparr>)
     = (Inl ReferenceError,
        (sample_event ''x'' 2)\<lparr> u_target := Some 0, currentTarget := Some 0 \<rparr>, [])"
  by (simp add: eval_defs)

subsection \<open>C9: dispatching with the shared event\<close>

text \<open>
  C9: \<open>dispatchEventWith\<close> is \<open>dispatchEvent\<close> on the shared event with its type, bubbles
  and data fields set to the arguments, the boolean result dropped; what these three
  fields held before the call has no effect.
\<close>

theorem dispatchEventWith_is_dispatchEvent:
  "dispatchEventWith ambient_type call this reuseEvent typ bubbles dat =
     (case dispatchEvent ambient_type call this
             (reuseEvent\<lparr> u_type := typ, u_bubbles := bubbles, data := dat \<rparr>) of
        (r, event', lg) \<Rightarrow> ((case r of Inl err \<Rightarrow> Some err | Inr b \<Rightarrow> None), event', lg))
   \<and> dispatchEventWith ambient_type call this
        (reuseEvent\<lparr> u_type := typ0, u_bubbles := bubbles0, data := dat0 \<rparr>) typ bubbles dat
     = dispatchEventWith ambient_type call this reuseEvent typ bubbles dat"
  by (auto simp: dispatchEventWith_def Let_def split: prod.splits sum.splits)

subsection \<open>C10: what registration and removal leave alone\<close>

text \<open>
  C10: \<open>addEventListener\<close> and \<open>removeEventListener\<close> with \<open>useCapture\<close> false leave the
  capture map as it is, with \<open>useCapture\<close> true the target and bubble map; in the map
  they select, the bucket of every other type key is unchanged; and so are the
  target and the \<open>u_isUseCapture\<close> field of the dispatcher.  This holds of a call that
  returns and of one that throws.
\<close>

theorem registration_frame:
  "u_captureEventsMap (snd (addEventListener this typ lsn thisObj False prio)) = u_captureEventsMap this
   \<and> u_eventsMap (snd (addEventListener this typ lsn thisObj True prio)) = u_eventsMap this
   \<and> u_captureEventsMap (snd (removeEventListener this typ lsn False)) = u_captureEventsMap this
   \<and> u_eventsMap (snd (removeEventListener this typ lsn True)) = u_eventsMap this
   \<and> (typ' \<noteq> typ \<longrightarrow>
        select_map (snd (addEventListener this typ lsn thisObj useCapture prio)) useCapture typ'
          = select_map this useCapture typ'
        \<and> select_map (snd (removeEventListener this typ lsn useCapture)) useCapture typ'
          = select_map this useCapture typ')
   \<and> target (snd (addEventListener this typ lsn thisObj useCapture prio)) = target this
   \<and> target (snd (removeEventListener this typ lsn useCapture)) = target this
   \<and> u_isUseCapture (snd (addEventListener this typ lsn thisObj useCapture prio)) = u_isUseCapture this
   \<and> u_isUseCapture (snd (removeEventListener this typ lsn useCapture)) = u_isUseCapture this"
proof -
  have "select_map (snd (addEventListener this typ lsn thisObj uc prio)) (\<not> uc) = select_map this (\<not> uc)"
    and "select_map (snd (removeEventListener this typ lsn uc)) (\<not> uc) = select_map this (\<not> uc)"
    for uc
    by (rule frame_other_map)+
  from this [of False] this [of True]
  have other: "u_captureEventsMap (snd (addEventListener this typ lsn thisObj False prio))
                 = u_captureEventsMap this"
      "u_eventsMap (snd (addEventListener this typ lsn thisObj True prio)) = u_eventsMap this"
      "u_captureEventsMap (snd (removeEventListener this typ lsn False)) = u_captureEventsMap this"
      "u_eventsMap (snd (removeEventListener this typ lsn True)) = u_eventsMap this"
    by (simp_all add: select_map_def)
  show ?thesis
    by (simp add: other frame_other_type frame_fields)
qed

theorem registration_frame_witness:
  "''y'' \<noteq> ''x''
   \<and> select_map (snd (addEventListener (snd (addEventListener (constructor 0 None) ''y'' 11 7 False 0))
        ''x'' 12 7 False 0)) False ''y''
       = select_map (snd (addEventListener (constructor 0 None) ''y'' 11 7 False 0)) False ''y''
   \<and> select_map (snd (removeEventListener (snd (addEventListener (constructor 0 None) ''y'' 11 7 False 0))
        ''x'' 12 False)) False ''y''
       = select_map (snd (addEventListener (constructor 0 None) ''y'' 11 7 False 0)) False ''y''
   \<and> select_map (snd (addEventListener (constructor 0 None) ''y'' 11 7 False 0)) False ''y''
       = Some [\<lparr> listener = 11, thisObject = 7, priority = 0 \<rparr>]"
proof -
  have ne: "''y'' \<noteq> ''x''" by simp
  have v: "select_map (snd (addEventListener (constructor 0 None) ''y'' 11 7 False 0)) False ''y''
             = Some [\<lparr> listener = 11, thisObject = 7, priority = 0 \<rparr>]"
    by (simp add: eval_defs)
  show ?thesis
    using registration_frame [of "snd (addEventListener (constructor 0 None) ''y'' 11 7 False 0)"
        "''x''" 12 7 0 "''y''" False] ne v
    by blast
qed

section \<open>Further properties\<close>

text \<open>
  Where a new listener goes, when the call returns: in front of the first binding of
  the bucket whose priority is at most its own, behind every binding of a higher
  priority.
\<close>

theorem addEventListener_position:
  assumes "lsn \<notin> listener ` set (bucket this useCapture typ)"
    and "fst (addEventListener this typ lsn thisObj useCapture prio) = None"
  shows "\<exists>xs ys. bucket this useCapture typ = xs @ ys
           \<and> bucket (snd (addEventListener this typ lsn thisObj useCapture prio)) useCapture typ
               = xs @ \<lparr> listener = lsn, thisObject = thisObj, priority = prio \<rparr> # ys
           \<and> (\<forall>b\<in>set xs. prio < priority b)
           \<and> (ys \<noteq> [] \<longrightarrow> priority (hd ys) \<le> prio)"
  using assms(1) insert_bin_position
    [of "bucket this useCapture typ" "\<lparr> listener = lsn, thisObject = thisObj, priority = prio \<rparr>"]
  by (simp add: bucket_addEventListener [OF assms(2)])

theorem addEventListener_position_witness:
  "fst (addEventListener (snd (addEventListener (snd (addEventListener (constructor 0 None)
        ''x'' 11 7 False 0)) ''x'' 12 7 False 5)) ''x'' 14 8 False 3) = None
   \<and> 14 \<notin> listener ` set (bucket (snd (addEventListener (snd (addEventListener (constructor 0 None)
        ''x'' 11 7 False 0)) ''x'' 12 7 False 5)) False ''x'')
   \<and> (\<exists>xs ys. bucket (snd (addEventListener (snd (addEventListener (constructor 0 None)
        ''x'' 11 7 False 0)) ''x'' 12 7 False 5)) False ''x'' = xs @ ys
        \<and> bucket (snd (addEventListener (snd (addEventListener (snd (addEventListener (constructor 0 None)
            ''x'' 11 7 False 0)) ''x'' 12 7 False 5)) ''x'' 14 8 False 3)) False ''x''
            = xs @ \<lparr> listener = 14, thisObject = 8, priority = 3 \<rparr> # ys
        \<and> (\<forall>b\<in>set xs. 3 < priority b)
        \<and> (ys \<noteq> [] \<longrightarrow> priority (hd ys) \<le> 3))"
proof -
  let ?d = "snd (addEventListener (snd (addEventListener (constructor 0 None)
        ''x'' 11 7 False 0)) ''x'' 12 7 False 5)"
  have fresh: "14 \<notin> listener ` set (bucket ?d False ''x'')" by (simp add: eval_defs)
  have ret: "fst (addEventListener ?d ''x'' 14 8 False 3) = None"
    by (simp add: addEventListener_returns Object_prototype_def)
  from addEventListener_position [OF fresh ret] fresh ret show ?thesis by blast
qed

text \<open>Registration keeps a bucket in non-increasing order of priority.\<close>

theorem addEventListener_descending:
  assumes "descending (bucket this useCapture typ)"
  shows "descending
           (bucket (snd (addEventListener this typ lsn thisObj useCapture prio)) useCapture typ)"
proof (cases "fst (addEventListener this typ lsn thisObj useCapture prio) = None")
  case True
  with assms show ?thesis by (simp add: bucket_addEventListener descending_insert_bin)
next
  case False
  then have "snd (addEventListener this typ lsn thisObj useCapture prio) = this"
    by (rule addEventListener_thrown)
  with assms show ?thesis by simp
qed

theorem addEventListener_descending_witness:
  "descending (bucket (constructor 0 None) False ''x'')
   \<and> descending (bucket (snd (addEventListener (constructor 0 None) ''x'' 11 7 False 0)) False ''x'')"
proof -
  have d: "descending (bucket (constructor 0 None) False ''x'')"
    by (simp add: descending_def eval_defs)
  from addEventListener_descending [OF d, of 11 7 0] d show ?thesis by blast
qed

text \<open>
  Whatever \<^verbatim>\<open>type\<close> is bound to, a dispatch that returns a boolean returns the negation
  of the default-prevented flag of the event as the pass left it; it returns false
  only if the call of an invoked listener turned the flag on, and true when no
  listener was invoked.
\<close>

theorem dispatchEvent_result:
  assumes "dispatchEvent ambient_type call this event = (Inr b, event', lg)"
  shows "b = (\<not> defaultPrevented event')
       \<and> (\<not> b \<longrightarrow> (\<exists>bin ev_in ev_out. (bin, ev_in, ev_out) \<in> set lg
                       \<and> \<not> defaultPrevented ev_in \<and> defaultPrevented ev_out))
       \<and> (lg = [] \<longrightarrow> b)"
proof -
  let ?ev = "event\<lparr> propagationStopped := False, u_isPropagationImmediateStopped := False,
               defaultPrevented := False, u_target := Some (target this),
               currentTarget := Some (target this) \<rparr>"
  from assms have n: "u_notifyListener ambient_type call this ?ev = (Inr b, event', lg)"
    by (simp add: dispatchEvent_eq)
  from u_notifyListener_cases [OF n]
  consider (absent) "b" "event' = ?ev" "lg = []"
    | (pass) list e where "notify_loop call list ?ev = (e, event', lg)"
        "Inr b = (case e of Some err \<Rightarrow> Inl err | None \<Rightarrow> Inr (\<not> defaultPrevented event'))"
    by auto
  then show ?thesis
  proof cases
    case absent
    then show ?thesis by simp
  next
    case pass
    from pass(2) have b: "b = (\<not> defaultPrevented event')" by (cases e) auto
    have start: "\<not> defaultPrevented ?ev" by simp
    have setter: "\<exists>bin ev_in ev_out. (bin, ev_in, ev_out) \<in> set lg
                       \<and> \<not> defaultPrevented ev_in \<and> defaultPrevented ev_out" if "\<not> b"
      using notify_loop_setter [OF pass(1) _ start] that b by simp
    have "b" if "lg = []"
    proof (rule ccontr)
      assume "\<not> b"
      from setter [OF this] that show False by simp
    qed
    with b setter show ?thesis by blast
  qed
qed

theorem dispatchEvent_result_witness:
  "dispatchEvent (Some ''x'') sample_call
       (snd (addEventListener (constructor 0 None) ''x'' 1 7 False 0)) (sample_event ''x'' 2)
     = (Inr False,
        (sample_event ''x'' 2)\<lparr> u_target := Some 0, currentTarget := Some 0,
                                 defaultPrevented := True \<rparr>,
        [(\<lparr> listener = 1, thisObject = 7, priority = 0 \<rparr>,
          (sample_event ''x'' 2)\<lparr> u_target := Some 0, currentTarget := Some 0 \<rparr>,
          (sample_event ''x'' 2)\<lparr> u_target := Some 0, currentTarget := Some 0,
                                   defaultPrevented := True \<rparr>)])
   \<and> False = (\<not> defaultPrevented ((sample_event ''x'' 2)\<lparr> u_target := Some 0,
                  currentTarget := Some 0, defaultPrevented := True \<rparr>))"
  using dispatchEvent_result [OF prevented_dispatch] prevented_dispatch by blast

text \<open>
  The first listener that a dispatch invokes is passed the event with the three flags
  off and both targets set to the target of the dispatcher.
\<close>

theorem dispatchEvent_first_listener:
  assumes "dispatchEvent ambient_type call this event = (r, event', lg)" and "lg \<noteq> []"
  shows "\<exists>bin ev_out typ'. hd lg =
           (bin,
            event\<lparr> propagationStopped := False, u_isPropagationImmediateStopped := False,
                    defaultPrevented := False, u_target := Some (target this),
                    currentTarget := Some (target this) \<rparr>,
            ev_out)
         \<and> ambient_type = Some typ'
         \<and> bin \<in> set (bucket this (u_eventPhase event = 1) typ')"
proof -
  let ?ev = "event\<lparr> propagationStopped := False, u_isPropagationImmediateStopped := False,
               defaultPrevented := False, u_target := Some (target this),
               currentTarget := Some (target this) \<rparr>"
  from assms(1) have n: "u_notifyListener ambient_type call this ?ev = (r, event', lg)"
    by (simp add: dispatchEvent_eq)
  from u_notifyListener_cases [OF n] assms(2)
  obtain k list e where a: "ambient_type = Some k"
    and l: "notify_loop call list ?ev = (e, event', lg)"
    by auto
  from notify_loop_head [OF l assms(2)] obtain bin ev_out where h: "hd lg = (bin, ?ev, ev_out)"
    by blast
  then have "(bin, ?ev, ev_out) \<in> set lg" using assms(2) by (metis hd_in_set)
  from u_notifyListener_bins [OF n this] a
  have "bin \<in> set (bucket this (u_eventPhase event = 1) k)" by simp
  with h a show ?thesis by blast
qed

theorem dispatchEvent_first_listener_witness:
  "dispatchEvent (Some ''x'') sample_call
       (snd (addEventListener (constructor 0 None) ''x'' 1 7 False 0)) (sample_event ''x'' 2)
     = (Inr False,
        (sample_event ''x'' 2)\<lparr> u_target := Some 0, currentTarget := Some 0,
                                 defaultPrevented := True \<rparr>,
        [(\<lparr> listener = 1, thisObject = 7, priority = 0 \<rparr>,
          (sample_event ''x'' 2)\<lparr> u_target := Some 0, currentTarget := Some 0 \<rparr>,
          (sample_event ''x'' 2)\<lparr> u_target := Some 0, currentTarget := Some 0,
                                   defaultPrevented := True \<rparr>)])
   \<and> (\<exists>ev_in. fst (snd (hd (snd (snd (dispatchEvent (Some ''x'') sample_call
          (snd (addEventListener (constructor 0 None) ''x'' 1 7 False 0)) (sample_event ''x'' 2))))))
          = ev_in
        \<and> \<not> defaultPrevented ev_in \<and> u_target ev_in = Some 0 \<and> currentTarget ev_in = Some 0)"
proof -
  let ?lg = "[(\<lparr> listener = 1, thisObject = 7, priority = 0 \<rparr>,
          (sample_event ''x'' 2)\<lparr> u_target := Some 0, currentTarget := Some 0 \<rparr>,
          (sample_event ''x'' 2)\<lparr> u_target := Some 0, currentTarget := Some 0,
                                   defaultPrevented := True \<rparr>)]"
  have ne: "?lg \<noteq> []" by simp
  from dispatchEvent_first_listener [OF prevented_dispatch ne]
  have "\<exists>bin ev_out typ'. hd ?lg = (bin,
            (sample_event ''x'' 2)\<lparr> propagationStopped := False,
               u_isPropagationImmediateStopped := False, defaultPrevented := False,
               u_target := Some (target (snd (addEventListener (constructor 0 None) ''x'' 1 7 False 0))),
               currentTarget := Some (target (snd (addEventListener (constructor 0 None) ''x'' 1 7 False 0))) \<rparr>,
            ev_out)"
    by blast
  then show ?thesis using prevented_dispatch by (simp add: sample_event_def)
qed

end
